theory Spec2Isabelle
  imports Complex_Main "HOL-Library.Word" "HOL-Library.Multiset" "HOL-Library.Product_Lexorder"
begin

section \<open>Serving a ResNet model: the prediction pipeline of the two notebooks\<close>

text \<open>
  The notebooks build a TensorFlow graph out of library operations. The embedding runs the
  graph on concrete values: a tensor of known rank is a shape with its elements in row-major
  order, the score matrix is a list of rows, and an operation that TensorFlow aborts the whole
  \<open>session.run\<close> on returns \<open>Inl\<close> of an error. Single-precision numbers are modelled
  as real numbers, so every statement about probabilities is about exact arithmetic.

  The library operations the notebooks call but do not define are parameters
  (\<open>decode_jpeg\<close>, \<open>imagenet_resnet_v2\<close>), or modelled by their documented meaning
  (\<open>map_fn\<close>, \<open>stack\<close>, \<open>reshape\<close>, \<open>softmax\<close>, \<open>EstimatorSpec\<close>), or
  modelled from the spec
  where a claim is about the operation itself (\<open>top_k\<close>, \<open>preprocess_input\<close>,
  \<open>SavedModelBuilder\<close>).
\<close>

subsection \<open>Data\<close>

datatype error =
  DecodeError | ShapeError | UnimplementedError | ValueError
  | ModelInferenceError | ConfigurationError

type_synonym jpeg = "8 word list"

record 'a tensor =
  shape :: "nat list"
  elems :: "'a list"

datatype mode_keys = TRAIN | EVAL | PREDICT

datatype prediction_tensor = IntTensor "nat list list" | FloatTensor "real list list"

type_synonym predictions_dict = "(string \<times> prediction_tensor) list"

datatype export_output = PredictOutput predictions_dict

record estimator_spec =
  mode :: mode_keys
  predictions :: "predictions_dict option"
  export_outputs :: "(string \<times> export_output) list option"

record features_dict =
  images :: "jpeg list"

subsection \<open>Constants of the Estimator notebook\<close>

definition RESNET_SIZE :: nat where
  "RESNET_SIZE = 50"

definition DEFAULT_IMAGE_SIZE :: nat where
  "DEFAULT_IMAGE_SIZE = 224"

definition NUM_CHANNELS :: nat where
  "NUM_CHANNELS = 3"

definition LABEL_CLASSES :: nat where
  "LABEL_CLASSES = 1001"

definition TOP_K :: nat where
  "TOP_K = 5"

subsection \<open>Preprocessing one image (Estimator notebook)\<close>

definition to_float :: "8 word \<Rightarrow> real" where
  "to_float v = real (unat v)"

text \<open>
  \<open>preprocess_image\<close>: decode the JPEG into a tensor of 8-bit values, convert to float,
  divide by 255.0 and subtract 0.5. The decoder is the library's; it is a parameter that
  returns \<open>None\<close> where \<open>tf.image.decode_jpeg\<close> rejects the bytes. The arguments
  \<open>height\<close> and \<open>width\<close> of the source are never read and are left out.
\<close>

definition preprocess_image :: "(jpeg \<Rightarrow> 8 word tensor option) \<Rightarrow> jpeg \<Rightarrow> error + real tensor" where
  "preprocess_image decode_jpeg encoded_image =
     (case decode_jpeg encoded_image of
        None \<Rightarrow> Inl DecodeError
      | Some img \<Rightarrow>
          Inr \<lparr>shape = shape img,
               elems = map (\<lambda>v. to_float v / 255.0 - 0.5) (elems img)\<rparr>)"

subsection \<open>Library operations on tensors\<close>

text \<open>The loop of \<open>tf.map_fn\<close>: the elements in order, stopping at the first failure.\<close>

fun map_elems :: "('a \<Rightarrow> error + 'b) \<Rightarrow> 'a list \<Rightarrow> error + 'b list" where
  "map_elems f [] = Inr []"
| "map_elems f (x # xs) =
     (case f x of
        Inl e \<Rightarrow> Inl e
      | Inr y \<Rightarrow> (case map_elems f xs of Inl e \<Rightarrow> Inl e | Inr ys \<Rightarrow> Inr (y # ys)))"

text \<open>
  Packing the results of the loop into one tensor: all results must have one shape. Zero
  results cannot be packed: the shape of one result (\<open>[?, ?, 3]\<close> after
  \<open>decode_jpeg\<close>) is not known before the graph runs, and TensorFlow then aborts with
  \<open>UnimplementedError\<close>.
\<close>

definition pack :: "'a tensor list \<Rightarrow> error + 'a tensor" where
  "pack ts =
     (case ts of
        [] \<Rightarrow> Inl UnimplementedError
      | t # _ \<Rightarrow>
          if list_all (\<lambda>u. shape u = shape t) ts
          then Inr \<lparr>shape = length ts # shape t, elems = concat (map elems ts)\<rparr>
          else Inl ShapeError)"

definition map_fn :: "('a \<Rightarrow> error + 'b tensor) \<Rightarrow> 'a list \<Rightarrow> error + 'b tensor" where
  "map_fn fn xs = (case map_elems fn xs of Inl e \<Rightarrow> Inl e | Inr ys \<Rightarrow> pack ys)"

text \<open>\<open>tf.stack\<close> applied to what is already one tensor returns it.\<close>

definition stack :: "'a tensor \<Rightarrow> 'a tensor" where
  "stack t = t"

text \<open>
  \<open>tf.reshape\<close> to the shape \<open>[-1] + dims\<close>: the leading dimension is inferred from the
  number of elements, which must be a multiple of the product of \<open>dims\<close>.
\<close>

definition reshape :: "'a tensor \<Rightarrow> nat list \<Rightarrow> error + 'a tensor" where
  "reshape t dims =
     (let m = prod_list dims in
      if m \<noteq> 0 \<and> length (elems t) mod m = 0
      then Inr \<lparr>shape = (length (elems t) div m) # dims, elems = elems t\<rparr>
      else Inl ShapeError)"

text \<open>The slices of a tensor along its first dimension, in order.\<close>

definition unstack :: "'a tensor \<Rightarrow> 'a tensor list" where
  "unstack t =
     (case shape t of
        [] \<Rightarrow> []
      | n # dims \<Rightarrow>
          map (\<lambda>i. \<lparr>shape = dims,
                    elems = take (prod_list dims) (drop (i * prod_list dims) (elems t))\<rparr>)
            [0..<n])"

text \<open>
  Modelled from the spec: \<open>tf.nn.top_k\<close> is TensorFlow's and is not part of the
  notebooks. The spec's reduction: for each row the \<open>k\<close> largest scores with their
  column indices, ties broken by lowest column index first. On one row the entries are paired
  with their column index and ordered by larger value first and, among equal values, lower
  index first (\<open>ranked\<close>); the first \<open>k\<close> are kept.
\<close>

definition ranked :: "real list \<Rightarrow> (real \<times> nat) list" where
  "ranked row = sort_key (\<lambda>(v, i). (- v, i)) (zip row [0..<length row])"

definition top_k_row :: "real list \<Rightarrow> nat \<Rightarrow> (real \<times> nat) list" where
  "top_k_row row k = take k (ranked row)"

text \<open>On a matrix, row by row; every row must have at least \<open>k\<close> columns.\<close>

definition top_k :: "real list list \<Rightarrow> nat \<Rightarrow> error + (real list list \<times> nat list list)" where
  "top_k logits k =
     (if list_all (\<lambda>row. k \<le> length row) logits
      then Inr (map (\<lambda>row. map fst (top_k_row row k)) logits,
                map (\<lambda>row. map snd (top_k_row row k)) logits)
      else Inl ShapeError)"

text \<open>\<open>tf.nn.softmax\<close> along the last dimension.\<close>

definition softmax_row :: "real list \<Rightarrow> real list" where
  "softmax_row xs = map (\<lambda>x. exp x / sum_list (map exp xs)) xs"

definition softmax :: "real list list \<Rightarrow> real list list" where
  "softmax logits = map softmax_row logits"

subsection \<open>The model function and its export (Estimator notebook)\<close>

text \<open>
  The constructor \<open>tf.estimator.EstimatorSpec\<close>, with the arguments the notebook gives
  it (never a loss or a train op): it raises \<open>ValueError\<close> in the modes \<open>TRAIN\<close>
  and \<open>EVAL\<close>, which need them, and in \<open>PREDICT\<close> without predictions. A single
  export output under another key is registered under \<open>serving_default\<close> as well;
  several need that key among them.
\<close>

definition EstimatorSpec ::
  "mode_keys \<Rightarrow> predictions_dict option \<Rightarrow> (string \<times> export_output) list option \<Rightarrow>
   error + estimator_spec" where
  "EstimatorSpec m preds outs =
     (if m = TRAIN \<or> m = EVAL then Inl ValueError
      else if preds = None then Inl ValueError
      else (case outs of
              None \<Rightarrow> Inr \<lparr>mode = m, predictions = preds, export_outputs = None\<rparr>
            | Some d \<Rightarrow>
                if length d = 1 \<and> fst (hd d) \<noteq> ''serving_default''
                then Inr \<lparr>mode = m, predictions = preds,
                          export_outputs = Some (d @ [(''serving_default'', snd (hd d))])\<rparr>
                else if 1 < length d \<and> ''serving_default'' \<notin> set (map fst d)
                then Inl ValueError
                else Inr \<lparr>mode = m, predictions = preds, export_outputs = Some d\<rparr>))"

definition create_servable_estimator_spec ::
  "predictions_dict \<Rightarrow> mode_keys \<Rightarrow> error + estimator_spec" where
  "create_servable_estimator_spec preds m =
     EstimatorSpec m (Some preds) (Some [(''predict'', PredictOutput preds)])"

text \<open>
  \<open>resnet_model_fn\<close>. The network builder \<open>imagenet_resnet_v2\<close> is a parameter: given
  the size, the number of classes and the data format it returns the function from a batch
  and the training flag to the score matrix. Every operation is evaluated where the source
  creates it, so the failure of an operation comes before that of the constructor at the end.
\<close>

definition resnet_model_fn ::
  "(jpeg \<Rightarrow> 8 word tensor option) \<Rightarrow>
   (nat \<Rightarrow> nat \<Rightarrow> string \<Rightarrow> real tensor \<Rightarrow> bool \<Rightarrow> real list list) \<Rightarrow>
   features_dict \<Rightarrow> 'l \<Rightarrow> mode_keys \<Rightarrow> error + estimator_spec" where
  "resnet_model_fn decode_jpeg imagenet_resnet_v2 features labels m =
     (case map_fn (preprocess_image decode_jpeg) (images features) of
        Inl e \<Rightarrow> Inl e
      | Inr processed_images \<Rightarrow>
     (case reshape (stack processed_images) [DEFAULT_IMAGE_SIZE, DEFAULT_IMAGE_SIZE, 3] of
        Inl e \<Rightarrow> Inl e
      | Inr processed_images \<Rightarrow>
     (let network = imagenet_resnet_v2 RESNET_SIZE LABEL_CLASSES ''channels_last'';
          logits = network processed_images (m = TRAIN)
      in case top_k logits TOP_K of
        Inl e \<Rightarrow> Inl e
      | Inr (top_k_logits, top_k_classes) \<Rightarrow>
     (let top_k_probs = softmax top_k_logits;
          preds = [(''classes'', IntTensor top_k_classes),
                   (''probabilities'', FloatTensor top_k_probs)]
      in if m = PREDICT
         then create_servable_estimator_spec preds m
         else EstimatorSpec m None None))))"

text \<open>
  What the serving runtime returns for a request \<open>{'images': imgs}\<close>: it runs the model
  function in \<open>PREDICT\<close> mode and reads the outputs \<open>classes\<close> and
  \<open>probabilities\<close> of the exported signature \<open>predict\<close>.
\<close>

definition response :: "estimator_spec \<Rightarrow> string \<Rightarrow> prediction_tensor option" where
  "response spec name =
     (case export_outputs spec of
        None \<Rightarrow> None
      | Some outs \<Rightarrow>
          (case map_of outs ''predict'' of
             None \<Rightarrow> None
           | Some (PredictOutput d) \<Rightarrow> map_of d name))"

definition serve_predict ::
  "(jpeg \<Rightarrow> 8 word tensor option) \<Rightarrow>
   (nat \<Rightarrow> nat \<Rightarrow> string \<Rightarrow> real tensor \<Rightarrow> bool \<Rightarrow> real list list) \<Rightarrow>
   jpeg list \<Rightarrow> error + (nat list list \<times> real list list)" where
  "serve_predict decode_jpeg imagenet_resnet_v2 imgs =
     (case resnet_model_fn decode_jpeg imagenet_resnet_v2 \<lparr>images = imgs\<rparr> () PREDICT of
        Inl e \<Rightarrow> Inl e
      | Inr spec \<Rightarrow>
          (case (response spec ''classes'', response spec ''probabilities'') of
             (Some (IntTensor cs), Some (FloatTensor ps)) \<Rightarrow> Inr (cs, ps)
           | _ \<Rightarrow> Inl ModelInferenceError))"

subsection \<open>Valid requests and the contract of the network\<close>

text \<open>
  A valid image is one the decoder accepts and that is already 224 x 224 x 3, as the client
  sends it. The batch tensor of a valid request holds the normalised images in order.
\<close>

definition valid_jpeg :: "(jpeg \<Rightarrow> 8 word tensor option) \<Rightarrow> jpeg \<Rightarrow> bool" where
  "valid_jpeg decode_jpeg b =
     (case decode_jpeg b of
        None \<Rightarrow> False
      | Some img \<Rightarrow>
          shape img = [DEFAULT_IMAGE_SIZE, DEFAULT_IMAGE_SIZE, NUM_CHANNELS]
          \<and> length (elems img) = DEFAULT_IMAGE_SIZE * DEFAULT_IMAGE_SIZE * NUM_CHANNELS)"

definition valid_batch :: "(jpeg \<Rightarrow> 8 word tensor option) \<Rightarrow> jpeg list \<Rightarrow> bool" where
  "valid_batch decode_jpeg imgs = list_all (valid_jpeg decode_jpeg) imgs"

definition normalized :: "(jpeg \<Rightarrow> 8 word tensor option) \<Rightarrow> jpeg \<Rightarrow> real tensor" where
  "normalized decode_jpeg b =
     (case decode_jpeg b of
        None \<Rightarrow> \<lparr>shape = [], elems = []\<rparr>
      | Some img \<Rightarrow> \<lparr>shape = shape img, elems = map (\<lambda>v. to_float v / 255 - 1 / 2) (elems img)\<rparr>)"

definition image_batch :: "(jpeg \<Rightarrow> 8 word tensor option) \<Rightarrow> jpeg list \<Rightarrow> real tensor" where
  "image_batch decode_jpeg imgs =
     \<lparr>shape = [length imgs, DEFAULT_IMAGE_SIZE, DEFAULT_IMAGE_SIZE, 3],
      elems = concat (map (\<lambda>b. elems (normalized decode_jpeg b)) imgs)\<rparr>"

text \<open>
  What the notebook relies on from the network it loads: one row of scores per image of the
  batch, each with as many entries as the number of classes it was built for.
\<close>

definition resnet_contract ::
  "(nat \<Rightarrow> nat \<Rightarrow> string \<Rightarrow> real tensor \<Rightarrow> bool \<Rightarrow> real list list) \<Rightarrow> bool" where
  "resnet_contract imagenet_resnet_v2 \<longleftrightarrow>
     (\<forall>size classes fmt t tr.
        length (imagenet_resnet_v2 size classes fmt t tr) = (case shape t of [] \<Rightarrow> 0 | n # _ \<Rightarrow> n)
        \<and> (\<forall>r \<in> set (imagenet_resnet_v2 size classes fmt t tr). length r = classes))"

text \<open>
  In inference (\<open>is_training\<close> false) the network scores each image of the batch on its
  own: \<open>score\<close> is the function from one normalised image to its row of scores.
\<close>

definition scores_per_image ::
  "(nat \<Rightarrow> nat \<Rightarrow> string \<Rightarrow> real tensor \<Rightarrow> bool \<Rightarrow> real list list) \<Rightarrow>
   (real tensor \<Rightarrow> real list) \<Rightarrow> bool" where
  "scores_per_image imagenet_resnet_v2 score \<longleftrightarrow>
     (\<forall>t. imagenet_resnet_v2 RESNET_SIZE LABEL_CLASSES ''channels_last'' t False
            = map score (unstack t))
     \<and> (\<forall>x. length (score x) = LABEL_CLASSES)"

subsection \<open>The signatures the two notebooks export\<close>

datatype dtype = DT_STRING

record placeholder =
  dtype :: dtype
  dims :: "nat option list"

record 'i serving_input_receiver =
  features :: "(string \<times> 'i) list"
  receiver_tensors :: "(string \<times> 'i) list"

record ('i, 'o) signature_def =
  inputs :: "(string \<times> 'i) list"
  outputs :: "(string \<times> 'o) list"

text \<open>The receiver built from a dictionary of placeholders feeds them through as they are.\<close>

definition build_raw_serving_input_receiver_fn ::
  "(string \<times> 'i) list \<Rightarrow> 'i serving_input_receiver" where
  "build_raw_serving_input_receiver_fn d = \<lparr>features = d, receiver_tensors = d\<rparr>"

definition serving_input_receiver_fn :: "placeholder serving_input_receiver" where
  "serving_input_receiver_fn =
     build_raw_serving_input_receiver_fn [(''images'', \<lparr>dtype = DT_STRING, dims = [None]\<rparr>)]"

definition predict_signature_def ::
  "(string \<times> 'i) list \<Rightarrow> (string \<times> 'o) list \<Rightarrow> ('i, 'o) signature_def" where
  "predict_signature_def ins outs = \<lparr>inputs = ins, outputs = outs\<rparr>"

text \<open>
  \<open>estimator.export_savedmodel\<close> writes one signature for each entry of the
  \<open>export_outputs\<close> of the model function: its inputs are the receiver's tensors, its
  outputs those of the entry.
\<close>

definition export_signature_def_map ::
  "'i serving_input_receiver \<Rightarrow> estimator_spec \<Rightarrow>
   (string \<times> ('i, prediction_tensor) signature_def) list" where
  "export_signature_def_map receiver spec =
     (case export_outputs spec of
        None \<Rightarrow> []
      | Some outs \<Rightarrow>
          map (\<lambda>(key, out). case out of PredictOutput d \<Rightarrow>
                 (key, predict_signature_def (receiver_tensors receiver) d)) outs)"

text \<open>
  The Keras notebook: its placeholder \<open>images\<close>, and the signature built from it. The
  tensors \<open>top_k_classes\<close> and \<open>top_k_probs\<close> are left to the reader
  (\<open>???\<close>), so they are parameters here.
\<close>

definition keras_images :: placeholder where
  "keras_images = \<lparr>dtype = DT_STRING, dims = [None]\<rparr>"

definition keras_signature :: "'i \<Rightarrow> 'o \<Rightarrow> 'o \<Rightarrow> ('i, 'o) signature_def" where
  "keras_signature imgs top_k_classes top_k_probs =
     predict_signature_def [(''images'', imgs)]
       [(''classes'', top_k_classes), (''probabilities'', top_k_probs)]"

definition keras_signature_def_map ::
  "'i \<Rightarrow> 'o \<Rightarrow> 'o \<Rightarrow> (string \<times> ('i, 'o) signature_def) list" where
  "keras_signature_def_map imgs top_k_classes top_k_probs =
     [(''predict'', keras_signature imgs top_k_classes top_k_probs)]"

text \<open>The contract of a signature map: each key with the names of its inputs and outputs.\<close>

definition contract ::
  "(string \<times> ('i, 'o) signature_def) list \<Rightarrow> (string \<times> string list \<times> string list) list" where
  "contract m = map (\<lambda>(key, sg). (key, map fst (inputs sg), map fst (outputs sg))) m"

subsection \<open>Preprocessing one image (Keras notebook)\<close>

text \<open>
  Modelled from the spec: \<open>preprocess_input\<close> is imported from
  \<open>keras.applications.resnet50\<close> and is not part of the notebooks. The spec's
  mean-subtracted policy: a fixed mean per channel is subtracted, nothing is rescaled, and the
  channel order may be reversed (RGB to BGR). The three means and the choice of reversal are
  parameters; the elements are the pixels in order, three channel values each. Elements after
  the last whole pixel, which a tensor of shape \<open>[h, w, 3]\<close> never has, are left as they are.
\<close>

fun mean_subtracted :: "real \<times> real \<times> real \<Rightarrow> bool \<Rightarrow> real list \<Rightarrow> real list" where
  "mean_subtracted (m0, m1, m2) reversed (c0 # c1 # c2 # rest) =
     (if reversed then [c2 - m0, c1 - m1, c0 - m2] else [c0 - m0, c1 - m1, c2 - m2])
       @ mean_subtracted (m0, m1, m2) reversed rest"
| "mean_subtracted mean reversed rest = rest"

definition preprocess_input :: "real \<times> real \<times> real \<Rightarrow> bool \<Rightarrow> real tensor \<Rightarrow> real tensor" where
  "preprocess_input mean reversed x =
     \<lparr>shape = shape x, elems = mean_subtracted mean reversed (elems x)\<rparr>"

definition keras_preprocess_image ::
  "(jpeg \<Rightarrow> 8 word tensor option) \<Rightarrow> real \<times> real \<times> real \<Rightarrow> bool \<Rightarrow> jpeg \<Rightarrow> error + real tensor" where
  "keras_preprocess_image decode_jpeg mean reversed encoded_image =
     (case decode_jpeg encoded_image of
        None \<Rightarrow> Inl DecodeError
      | Some img \<Rightarrow>
          Inr (preprocess_input mean reversed
                 \<lparr>shape = shape img, elems = map to_float (elems img)\<rparr>))"

subsection \<open>Saving the servable (Keras notebook)\<close>

definition VERSION_NUMBER :: nat where
  "VERSION_NUMBER = 1"

text \<open>Python's \<open>str\<close> on a non-negative integer: its decimal digits.\<close>

definition digit :: "nat \<Rightarrow> char" where
  "digit d = ''0123456789'' ! d"

function str :: "nat \<Rightarrow> string" where
  "str n = (if n < 10 then [digit n] else str (n div 10) @ [digit (n mod 10)])"
  by pat_completeness auto
termination
  by (relation "measure (\<lambda>n. n)") auto

declare str.simps [simp del]

definition keras_SERVING_DIR :: "nat \<Rightarrow> string" where
  "keras_SERVING_DIR version_number = ''keras_resnet_servable/'' @ str version_number"

text \<open>
  Modelled from the spec: \<open>SavedModelBuilder\<close> is TensorFlow's and is not part of the
  notebooks. The notebook says that saving into a directory that already holds a servable
  fails hard; the spec calls the failure \<open>ConfigurationError\<close> and has the existing
  directory left as it is. The file system maps a directory to the meta graphs saved in it,
  each a list of tags with a signature map.
\<close>

type_synonym ('i, 'o) saved_model = "(string list \<times> (string \<times> ('i, 'o) signature_def) list) list"

type_synonym ('i, 'o) filesystem = "string \<rightharpoonup> ('i, 'o) saved_model"

record ('i, 'o) builder =
  export_dir :: string
  meta_graphs :: "('i, 'o) saved_model"

definition SavedModelBuilder ::
  "string \<Rightarrow> ('i, 'o) filesystem \<Rightarrow> error + ('i, 'o) builder" where
  "SavedModelBuilder dir fs =
     (if fs dir \<noteq> None then Inl ConfigurationError
      else Inr \<lparr>export_dir = dir, meta_graphs = []\<rparr>)"

definition add_meta_graph_and_variables ::
  "('i, 'o) builder \<Rightarrow> string list \<Rightarrow> (string \<times> ('i, 'o) signature_def) list \<Rightarrow> ('i, 'o) builder" where
  "add_meta_graph_and_variables b tags signature_def_map =
     b\<lparr>meta_graphs := meta_graphs b @ [(tags, signature_def_map)]\<rparr>"

definition save :: "('i, 'o) builder \<Rightarrow> ('i, 'o) filesystem \<Rightarrow> ('i, 'o) filesystem" where
  "save b fs = fs(export_dir b \<mapsto> meta_graphs b)"

text \<open>
  The last two cells of the Keras notebook, for a version number: create the builder, build
  the signature, add the graph under the tag \<open>serve\<close> and save. An exception raised by the
  builder leaves the rest unexecuted.
\<close>

definition export_keras_servable ::
  "nat \<Rightarrow> 'i \<Rightarrow> 'o \<Rightarrow> 'o \<Rightarrow> ('i, 'o) filesystem \<Rightarrow> (error + unit) \<times> ('i, 'o) filesystem" where
  "export_keras_servable version_number imgs top_k_classes top_k_probs fs =
     (case SavedModelBuilder (keras_SERVING_DIR version_number) fs of
        Inl e \<Rightarrow> (Inl e, fs)
      | Inr b \<Rightarrow>
          (let signature = keras_signature imgs top_k_classes top_k_probs;
               b' = add_meta_graph_and_variables b [''serve''] [(''predict'', signature)]
           in (Inr (), save b' fs)))"

subsection \<open>Sample inputs\<close>

text \<open>
  A decoder that rejects the empty byte string and decodes any other to a uniform
  224 x 224 x 3 image of its first byte, and a network whose score for class \<open>c\<close> of an
  image is \<open>c div 2\<close> times the image's first value: scores tie in pairs, and the
  classes with the largest scores are the last ones for an image of a byte above 127 and the
  first ones for an image of a byte below.
\<close>

definition example_decode_jpeg :: "jpeg \<Rightarrow> 8 word tensor option" where
  "example_decode_jpeg b =
     (case b of
        [] \<Rightarrow> None
      | v # _ \<Rightarrow> Some \<lparr>shape = [224, 224, 3], elems = replicate 150528 v\<rparr>)"

definition example_resnet :: "nat \<Rightarrow> nat \<Rightarrow> string \<Rightarrow> real tensor \<Rightarrow> bool \<Rightarrow> real list list" where
  "example_resnet resnet_size classes fmt t tr =
     map (\<lambda>x. map (\<lambda>c. real (c div 2) * sum_list (take 1 (elems x))) [0..<classes]) (unstack t)"

definition example_score :: "real tensor \<Rightarrow> real list" where
  "example_score x = map (\<lambda>c. real (c div 2) * sum_list (take 1 (elems x))) [0..<LABEL_CLASSES]"

section \<open>Normalisation of the Estimator notebook\<close>

lemma to_float_range: "0 \<le> to_float v \<and> to_float v \<le> 255"
proof -
  have "unat v < 2 ^ 8"
    using unsigned_less [of v] by simp
  then have "unat v \<le> 255" by simp
  then have "real (unat v) \<le> real 255"
    by (rule iffD2 [OF of_nat_le_iff])
  then have hi: "real (unat v) \<le> 255"
    by (simp del: of_nat_unat)
  have lo: "0 \<le> real (unat v)"
    by (rule of_nat_0_le_iff)
  show ?thesis
    unfolding to_float_def using lo hi by (rule conjI)
qed

text \<open>
  C6. Under the centred-unit policy every decoded channel value \<open>v\<close> (an 8-bit value, so
  between 0 and 255) becomes \<open>v / 255 - 0.5\<close>, and every value of the result lies between
  \<open>-0.5\<close> and \<open>0.5\<close>.
\<close>

theorem preprocess_image_centered_unit:
  assumes "decode_jpeg encoded_image = Some img"
  shows "\<exists>t. preprocess_image decode_jpeg encoded_image = Inr t
           \<and> shape t = shape img
           \<and> elems t = map (\<lambda>v. real (unat v) / 255 - 1 / 2) (elems img)
           \<and> (\<forall>x \<in> set (elems t). - (1 / 2) \<le> x \<and> x \<le> 1 / 2)"
proof -
  let ?t = "\<lparr>shape = shape img,
             elems = map (\<lambda>v. to_float v / 255.0 - 0.5) (elems img)\<rparr>"
  have run: "preprocess_image decode_jpeg encoded_image = Inr ?t"
    using assms by (simp add: preprocess_image_def)
  have vals: "elems ?t = map (\<lambda>v. real (unat v) / 255 - 1 / 2) (elems img)"
    by (simp add: to_float_def)
  have bound: "- (1 / 2) \<le> to_float v / 255 - 1 / 2 \<and> to_float v / 255 - 1 / 2 \<le> 1 / 2" for v
    using to_float_range [of v] by simp
  have range: "\<forall>x \<in> set (elems ?t). - (1 / 2) \<le> x \<and> x \<le> 1 / 2"
    using bound by auto
  show ?thesis
    using run vals range by (intro exI [of _ ?t]) simp
qed

theorem preprocess_image_centered_unit_witness:
  "example_decode_jpeg [7] = Some \<lparr>shape = [224, 224, 3], elems = replicate 150528 7\<rparr>
   \<and> (\<exists>t. preprocess_image example_decode_jpeg [7] = Inr t
     \<and> shape t = shape \<lparr>shape = [224, 224, 3], elems = replicate 150528 (7 :: 8 word)\<rparr>
     \<and> elems t = map (\<lambda>v. real (unat v) / 255 - 1 / 2)
                   (elems \<lparr>shape = [224, 224, 3], elems = replicate 150528 (7 :: 8 word)\<rparr>)
     \<and> (\<forall>x \<in> set (elems t). - (1 / 2) \<le> x \<and> x \<le> 1 / 2))"
proof -
  have h: "example_decode_jpeg [7] = Some \<lparr>shape = [224, 224, 3], elems = replicate 150528 7\<rparr>"
    by (simp add: example_decode_jpeg_def)
  note c = preprocess_image_centered_unit
    [where decode_jpeg = example_decode_jpeg and encoded_image = "[7]"
       and img = "\<lparr>shape = [224, 224, 3], elems = replicate 150528 7\<rparr>", OF h]
  show ?thesis
    by (rule conjI [OF h c])
qed

section \<open>Running the pipeline on a valid request\<close>

lemma map_elems_ok:
  "(\<And>x. x \<in> set xs \<Longrightarrow> f x = Inr (g x)) \<Longrightarrow> map_elems f xs = Inr (map g xs)"
  by (induction xs) simp_all

lemma map_elems_fails:
  assumes "x \<in> set xs" "f x = Inl e" "\<And>y e'. f y = Inl e' \<Longrightarrow> e' = e"
  shows "map_elems f xs = Inl e"
  using assms(1)
proof (induction xs)
  case Nil
  then show ?case by simp
next
  case (Cons a xs)
  show ?case
  proof (cases "f a")
    case (Inl e')
    then show ?thesis using assms(3) [of a e'] by simp
  next
    case (Inr y)
    then have "x \<in> set xs" using Cons.prems assms(2) by auto
    then have "map_elems f xs = Inl e" by (rule Cons.IH)
    then show ?thesis using Inr by simp
  qed
qed

lemma preprocess_image_valid:
  "valid_jpeg dec b \<Longrightarrow> preprocess_image dec b = Inr (normalized dec b)"
  by (auto simp: valid_jpeg_def preprocess_image_def normalized_def split: option.splits)

lemma normalized_valid:
  "valid_jpeg dec b \<Longrightarrow>
     shape (normalized dec b) = [224, 224, 3] \<and> length (elems (normalized dec b)) = 150528"
  by (auto simp: valid_jpeg_def normalized_def DEFAULT_IMAGE_SIZE_def NUM_CHANNELS_def
      split: option.splits)

lemma pack_same_shape:
  assumes "ts \<noteq> []" and "\<And>t. t \<in> set ts \<Longrightarrow> shape t = s"
  shows "\<exists>s'. pack ts = Inr \<lparr>shape = s', elems = concat (map elems ts)\<rparr>"
proof (cases ts)
  case Nil
  then show ?thesis using assms(1) by simp
next
  case (Cons t ts')
  then have "list_all (\<lambda>u. shape u = shape t) ts"
    using assms(2) by (simp add: list_all_iff)
  then show ?thesis using Cons by (simp add: pack_def)
qed

lemma length_concat_uniform:
  "(\<And>xs. xs \<in> set xss \<Longrightarrow> length xs = m) \<Longrightarrow> length (concat xss) = length xss * m"
  by (induction xss) simp_all

lemma take_drop_concat_uniform:
  "(\<And>xs. xs \<in> set xss \<Longrightarrow> length xs = m) \<Longrightarrow> i < length xss \<Longrightarrow>
     take m (drop (i * m) (concat xss)) = xss ! i"
proof (induction xss arbitrary: i)
  case Nil
  then show ?case by simp
next
  case (Cons a xss)
  have la: "length a = m" using Cons.prems(1) by simp
  show ?case
  proof (cases i)
    case 0
    then show ?thesis using la by simp
  next
    case (Suc j)
    have "take m (drop (j * m) (concat xss)) = xss ! j"
      using Cons.prems Suc by (intro Cons.IH) simp_all
    then show ?thesis using Suc la by (simp add: add.commute)
  qed
qed

lemma map_fn_empty: "map_fn fn [] = Inl UnimplementedError"
  by (simp add: map_fn_def pack_def)

lemma map_fn_valid:
  assumes "valid_batch dec imgs" and "imgs \<noteq> []"
  shows "\<exists>s. map_fn (preprocess_image dec) imgs
           = Inr \<lparr>shape = s, elems = concat (map (\<lambda>b. elems (normalized dec b)) imgs)\<rparr>"
proof -
  have v: "\<And>b. b \<in> set imgs \<Longrightarrow> valid_jpeg dec b"
    using assms(1) by (simp add: valid_batch_def list_all_iff)
  have loop: "map_elems (preprocess_image dec) imgs = Inr (map (normalized dec) imgs)"
    using v by (intro map_elems_ok preprocess_image_valid)
  have ne: "map (normalized dec) imgs \<noteq> []"
    using assms(2) by simp
  have "\<And>t. t \<in> set (map (normalized dec) imgs) \<Longrightarrow> shape t = [224, 224, 3]"
    using v normalized_valid by auto
  with ne obtain s where
    "pack (map (normalized dec) imgs)
       = Inr \<lparr>shape = s, elems = concat (map elems (map (normalized dec) imgs))\<rparr>"
    using pack_same_shape by blast
  then show ?thesis
    using loop by (simp add: map_fn_def comp_def)
qed

lemma length_image_batch:
  assumes "valid_batch dec imgs"
  shows "length (concat (map (\<lambda>b. elems (normalized dec b)) imgs)) = length imgs * 150528"
proof -
  have "\<And>xs. xs \<in> set (map (\<lambda>b. elems (normalized dec b)) imgs) \<Longrightarrow> length xs = 150528"
    using assms normalized_valid by (auto simp: valid_batch_def list_all_iff)
  then show ?thesis
    using length_concat_uniform [of "map (\<lambda>b. elems (normalized dec b)) imgs" 150528] by simp
qed

lemma reshape_valid:
  assumes "valid_batch dec imgs"
  shows "reshape (stack \<lparr>shape = s, elems = concat (map (\<lambda>b. elems (normalized dec b)) imgs)\<rparr>)
           [DEFAULT_IMAGE_SIZE, DEFAULT_IMAGE_SIZE, 3] = Inr (image_batch dec imgs)"
  using length_image_batch [OF assms]
  by (simp add: reshape_def stack_def image_batch_def DEFAULT_IMAGE_SIZE_def Let_def)

lemma create_servable_estimator_spec_predict:
  "create_servable_estimator_spec preds PREDICT =
     Inr \<lparr>mode = PREDICT, predictions = Some preds,
          export_outputs = Some [(''predict'', PredictOutput preds),
                                 (''serving_default'', PredictOutput preds)]\<rparr>"
  by (simp add: create_servable_estimator_spec_def EstimatorSpec_def)

lemma EstimatorSpec_not_predict: "m \<noteq> PREDICT \<Longrightarrow> EstimatorSpec m preds outs = Inl ValueError"
  by (cases m) (simp_all add: EstimatorSpec_def)

lemma resnet_model_fn_valid:
  assumes "valid_batch dec imgs" and "imgs \<noteq> []"
    and "list_all (\<lambda>r. TOP_K \<le> length r)
           (net RESNET_SIZE LABEL_CLASSES ''channels_last'' (image_batch dec imgs) False)"
  shows "resnet_model_fn dec net \<lparr>images = imgs\<rparr> labels PREDICT =
           create_servable_estimator_spec
             [(''classes'', IntTensor (map (\<lambda>row. map snd (top_k_row row TOP_K))
                 (net RESNET_SIZE LABEL_CLASSES ''channels_last'' (image_batch dec imgs) False))),
              (''probabilities'', FloatTensor (softmax (map (\<lambda>row. map fst (top_k_row row TOP_K))
                 (net RESNET_SIZE LABEL_CLASSES ''channels_last'' (image_batch dec imgs) False))))]
             PREDICT"
proof -
  obtain s where m: "map_fn (preprocess_image dec) imgs
      = Inr \<lparr>shape = s, elems = concat (map (\<lambda>b. elems (normalized dec b)) imgs)\<rparr>"
    using map_fn_valid [OF assms(1, 2)] by blast
  show ?thesis
    unfolding resnet_model_fn_def
    using assms(3) by (simp add: m reshape_valid [OF assms(1)] top_k_def Let_def)
qed

lemma resnet_model_fn_empty:
  "resnet_model_fn dec net \<lparr>images = []\<rparr> labels m = Inl UnimplementedError"
  by (simp add: resnet_model_fn_def map_fn_empty)

lemma resnet_model_fn_not_predict:
  assumes "valid_batch dec imgs" and "imgs \<noteq> []"
    and "list_all (\<lambda>r. TOP_K \<le> length r)
           (net RESNET_SIZE LABEL_CLASSES ''channels_last'' (image_batch dec imgs) (m = TRAIN))"
    and "m \<noteq> PREDICT"
  shows "resnet_model_fn dec net \<lparr>images = imgs\<rparr> labels m = Inl ValueError"
proof -
  obtain s where mf: "map_fn (preprocess_image dec) imgs
      = Inr \<lparr>shape = s, elems = concat (map (\<lambda>b. elems (normalized dec b)) imgs)\<rparr>"
    using map_fn_valid [OF assms(1, 2)] by blast
  show ?thesis
    unfolding resnet_model_fn_def
    using assms(3, 4)
    by (simp add: mf reshape_valid [OF assms(1)] top_k_def Let_def EstimatorSpec_not_predict)
qed

lemma serve_predict_valid:
  assumes "valid_batch dec imgs" and "imgs \<noteq> []"
    and "list_all (\<lambda>r. TOP_K \<le> length r)
           (net RESNET_SIZE LABEL_CLASSES ''channels_last'' (image_batch dec imgs) False)"
  shows "serve_predict dec net imgs =
           Inr (map (\<lambda>row. map snd (top_k_row row TOP_K))
                  (net RESNET_SIZE LABEL_CLASSES ''channels_last'' (image_batch dec imgs) False),
                map (\<lambda>row. softmax_row (map fst (top_k_row row TOP_K)))
                  (net RESNET_SIZE LABEL_CLASSES ''channels_last'' (image_batch dec imgs) False))"
proof -
  note run = resnet_model_fn_valid [where dec = dec and imgs = imgs and net = net and labels = "()"]
  show ?thesis
    unfolding serve_predict_def
    using assms
    by (simp add: run response_def create_servable_estimator_spec_predict softmax_def comp_def)
qed

lemma resnet_contract_rows:
  assumes "resnet_contract net"
  shows "length (net RESNET_SIZE LABEL_CLASSES ''channels_last'' (image_batch dec imgs) False) = length imgs"
    and "list_all (\<lambda>r. length r = 1001)
           (net RESNET_SIZE LABEL_CLASSES ''channels_last'' (image_batch dec imgs) False)"
    and "list_all (\<lambda>r. TOP_K \<le> length r)
           (net RESNET_SIZE LABEL_CLASSES ''channels_last'' (image_batch dec imgs) False)"
  using assms
  by (auto simp: resnet_contract_def image_batch_def list_all_iff LABEL_CLASSES_def TOP_K_def)

lemma unstack_image_batch:
  assumes "valid_batch dec imgs"
  shows "unstack (image_batch dec imgs) = map (normalized dec) imgs"
proof (rule nth_equalityI)
  show "length (unstack (image_batch dec imgs)) = length (map (normalized dec) imgs)"
    by (simp add: unstack_def image_batch_def)
next
  fix i
  assume "i < length (unstack (image_batch dec imgs))"
  then have i: "i < length imgs"
    by (simp add: unstack_def image_batch_def)
  have v: "valid_jpeg dec (imgs ! i)"
    using assms i by (simp add: valid_batch_def list_all_length)
  have u: "\<And>xs. xs \<in> set (map (\<lambda>b. elems (normalized dec b)) imgs) \<Longrightarrow> length xs = 150528"
    using assms normalized_valid by (auto simp: valid_batch_def list_all_iff)
  have "take 150528 (drop (i * 150528) (concat (map (\<lambda>b. elems (normalized dec b)) imgs)))
          = map (\<lambda>b. elems (normalized dec b)) imgs ! i"
    using u i by (intro take_drop_concat_uniform) simp_all
  then have "elems (unstack (image_batch dec imgs) ! i) = elems (normalized dec (imgs ! i))"
    using i by (simp add: unstack_def image_batch_def DEFAULT_IMAGE_SIZE_def)
  moreover have "shape (unstack (image_batch dec imgs) ! i) = shape (normalized dec (imgs ! i))"
    using i normalized_valid [OF v] by (simp add: unstack_def image_batch_def DEFAULT_IMAGE_SIZE_def)
  ultimately show "unstack (image_batch dec imgs) ! i = map (normalized dec) imgs ! i"
    using i by simp
qed

section \<open>The order computed by top_k\<close>

lemma top_k_row_ranked: "top_k_row row k = take k (ranked row)"
  by (simp add: top_k_row_def)

lemma length_ranked: "length (ranked row) = length row"
  by (simp add: ranked_def)

lemma map_snd_ranked_mset: "mset (map snd (ranked row)) = mset [0..<length row]"
proof -
  have "mset (ranked row) = mset (zip row [0..<length row])"
    by (simp add: ranked_def)
  then have "mset (map snd (ranked row)) = mset (map snd (zip row [0..<length row]))"
    by (metis mset_map)
  then show ?thesis by simp
qed

lemma map_fst_ranked_mset: "mset (map fst (ranked row)) = mset row"
proof -
  have "mset (ranked row) = mset (zip row [0..<length row])"
    by (simp add: ranked_def)
  then have "mset (map fst (ranked row)) = mset (map fst (zip row [0..<length row]))"
    by (metis mset_map)
  then show ?thesis by simp
qed

lemma distinct_snd_ranked: "distinct (map snd (ranked row))"
  using map_snd_ranked_mset [of row] mset_eq_imp_distinct_iff [of "map snd (ranked row)" "[0..<length row]"]
  by simp

lemma ranked_entry:
  assumes "a < length row"
  shows "snd (ranked row ! a) < length row \<and> fst (ranked row ! a) = row ! snd (ranked row ! a)"
proof -
  have "ranked row ! a \<in> set (ranked row)"
    using assms by (simp add: length_ranked)
  then have "ranked row ! a \<in> set (zip row [0..<length row])"
    by (simp add: ranked_def)
  then obtain j where "j < length row" "ranked row ! a = (row ! j, j)"
    by (auto simp: in_set_zip)
  then show ?thesis by simp
qed

lemma ranked_order:
  assumes "a < b" "b < length row"
  shows "fst (ranked row ! b) < fst (ranked row ! a)
       \<or> (fst (ranked row ! a) = fst (ranked row ! b) \<and> snd (ranked row ! a) < snd (ranked row ! b))"
proof -
  let ?key = "\<lambda>(v :: real, i :: nat). (- v, i)"
  have "sorted (map ?key (ranked row))"
    by (simp add: ranked_def)
  then have "map ?key (ranked row) ! a \<le> map ?key (ranked row) ! b"
    using assms by (intro sorted_nth_mono) (simp_all add: length_ranked)
  then have le: "?key (ranked row ! a) \<le> ?key (ranked row ! b)"
    using assms by (simp add: length_ranked)
  have "map snd (ranked row) ! a \<noteq> map snd (ranked row) ! b"
    using distinct_snd_ranked [of row] assms
    by (simp add: distinct_conv_nth length_ranked)
  then have ne: "snd (ranked row ! a) \<noteq> snd (ranked row ! b)"
    using assms by (simp add: length_ranked)
  obtain va ia vb ib where ab: "ranked row ! a = (va, ia)" "ranked row ! b = (vb, ib)"
    by (metis surj_pair)
  show ?thesis
    using le ne unfolding ab by auto
qed

lemma ranked_position:
  assumes "j < length row"
  shows "\<exists>p < length row. ranked row ! p = (row ! j, j)"
proof -
  have "(row ! j, j) \<in> set (zip row [0..<length row])"
    using assms by (auto simp: in_set_zip)
  then have "(row ! j, j) \<in> set (ranked row)"
    by (simp add: ranked_def)
  then show ?thesis
    by (metis in_set_conv_nth length_ranked)
qed

lemma sorted_rev_of_sorted_uminus:
  fixes xs :: "real list"
  assumes "sorted (map uminus xs)"
  shows "sorted (rev xs)"
  unfolding sorted_rev_iff_nth_mono
proof (intro allI impI)
  fix i j
  assume "i \<le> j" "j < length xs"
  then have "map uminus xs ! i \<le> map uminus xs ! j"
    using assms by (intro sorted_nth_mono) simp_all
  then show "xs ! j \<le> xs ! i"
    using \<open>i \<le> j\<close> \<open>j < length xs\<close> by simp
qed

lemma sorted_rev_fst_ranked: "sorted (rev (map fst (ranked row)))"
proof (rule sorted_rev_of_sorted_uminus, unfold sorted_iff_nth_mono, intro allI impI)
  fix i j
  assume ij: "i \<le> j" "j < length (map uminus (map fst (ranked row)))"
  then have j: "j < length row" by (simp add: length_ranked)
  show "map uminus (map fst (ranked row)) ! i \<le> map uminus (map fst (ranked row)) ! j"
  proof (cases "i = j")
    case True
    then show ?thesis by simp
  next
    case False
    then have "i < j" using ij by simp
    from ranked_order [OF this j] show ?thesis
      using ij j by (auto simp: length_ranked)
  qed
qed

lemma map_fst_ranked: "map fst (ranked row) = rev (sort row)"
proof -
  have "mset (rev (map fst (ranked row))) = mset row"
    by (simp add: map_fst_ranked_mset del: mset_map)
  then have "sort row = rev (map fst (ranked row))"
    using sorted_rev_fst_ranked by (intro properties_for_sort) 
  then show ?thesis by simp
qed

lemma top_k_row_values: "map fst (top_k_row row k) = take k (rev (sort row))"
  by (simp add: top_k_row_ranked map_fst_ranked flip: take_map)

lemma top_k_rows:
  assumes "top_k logits k = Inr (vals, idxs)" and "r < length logits"
  shows "k \<le> length (logits ! r)"
    and "vals ! r = map fst (take k (ranked (logits ! r)))"
    and "idxs ! r = map snd (take k (ranked (logits ! r)))"
proof -
  have all: "list_all (\<lambda>row. k \<le> length row) logits"
    using assms(1) by (simp add: top_k_def split: if_splits)
  then show "k \<le> length (logits ! r)"
    using assms(2) by (simp add: list_all_length)
  have "vals = map (\<lambda>row. map fst (top_k_row row k)) logits"
    and "idxs = map (\<lambda>row. map snd (top_k_row row k)) logits"
    using assms(1) all by (simp_all add: top_k_def)
  then show "vals ! r = map fst (take k (ranked (logits ! r)))"
    and "idxs ! r = map snd (take k (ranked (logits ! r)))"
    using assms(2) by (simp_all add: top_k_row_ranked)
qed

lemma length_softmax_row: "length (softmax_row xs) = length xs"
  by (simp add: softmax_row_def)

lemma sum_list_exp_pos: "xs \<noteq> [] \<Longrightarrow> 0 < sum_list (map exp (xs :: real list))"
proof (induction xs)
  case Nil
  then show ?case by simp
next
  case (Cons a xs)
  have "0 \<le> sum_list (map exp xs)"
    by (rule sum_list_nonneg) auto
  moreover have "0 < exp a" by simp
  ultimately have "0 < exp a + sum_list (map exp xs)"
    by (rule add_pos_nonneg [rotated])
  then show ?case by simp
qed

lemma sum_list_divide: "sum_list (map (\<lambda>x. f x / c) xs) = sum_list (map f xs) / (c :: real)"
  by (induction xs) (simp_all add: add_divide_distrib)

lemma sum_softmax_row:
  assumes "xs \<noteq> []"
  shows "sum_list (softmax_row xs) = 1"
proof -
  have "sum_list (softmax_row xs) = sum_list (map exp xs) / sum_list (map exp xs)"
    unfolding softmax_row_def by (rule sum_list_divide)
  then show ?thesis
    using sum_list_exp_pos [OF assms] by simp
qed

lemma softmax_row_monotone:
  assumes "sorted (rev xs)"
  shows "sorted (rev (softmax_row xs))"
  unfolding sorted_rev_iff_nth_mono
proof (intro allI impI)
  fix i j
  assume ij: "i \<le> j" "j < length (softmax_row xs)"
  then have j: "j < length xs" by (simp add: length_softmax_row)
  have "xs ! j \<le> xs ! i"
    using assms ij(1) j by (rule sorted_rev_nth_mono)
  then have "exp (xs ! j) \<le> exp (xs ! i)" by simp
  moreover have "0 \<le> sum_list (map exp xs)"
    by (rule sum_list_nonneg) auto
  ultimately have "exp (xs ! j) / sum_list (map exp xs) \<le> exp (xs ! i) / sum_list (map exp xs)"
    by (rule divide_right_mono)
  then show "softmax_row xs ! j \<le> softmax_row xs ! i"
    using ij(1) j by (simp add: softmax_row_def)
qed

text \<open>
  C3. For every row of the score matrix, \<open>top_k\<close> with \<open>k = 5\<close> returns five entries
  of the row with their distinct column indices, ordered by larger score first and, among equal
  scores, lower column index first; every column left out has a smaller score than each
  returned entry, or an equal score and a higher index. The result is a function of the row.
\<close>

theorem top_k_largest_lowest_index_first:
  assumes "top_k logits TOP_K = Inr (vals, idxs)" and "r < length logits"
  shows "length (vals ! r) = 5 \<and> length (idxs ! r) = 5 \<and> distinct (idxs ! r)
    \<and> (\<forall>a<5. idxs ! r ! a < length (logits ! r) \<and> vals ! r ! a = logits ! r ! (idxs ! r ! a))
    \<and> (\<forall>a b. a < b \<and> b < 5 \<longrightarrow>
          vals ! r ! b < vals ! r ! a
          \<or> (vals ! r ! a = vals ! r ! b \<and> idxs ! r ! a < idxs ! r ! b))
    \<and> (\<forall>j<length (logits ! r). j \<notin> set (idxs ! r) \<longrightarrow>
          (\<forall>a<5. logits ! r ! j < vals ! r ! a
                 \<or> (logits ! r ! j = vals ! r ! a \<and> idxs ! r ! a < j)))"
proof -
  define row where "row = logits ! r"
  define rk where "rk = ranked row"
  have len: "5 \<le> length row"
    and vals: "vals ! r = map fst (take 5 rk)"
    and idxs: "idxs ! r = map snd (take 5 rk)"
    using top_k_rows [OF assms] by (simp_all add: row_def rk_def TOP_K_def)
  have lrk: "length rk = length row"
    by (simp add: rk_def length_ranked)
  have val_at: "vals ! r ! a = fst (rk ! a)" and idx_at: "idxs ! r ! a = snd (rk ! a)"
    if "a < 5" for a
    using that len lrk by (simp_all add: vals idxs)
  have l1: "length (vals ! r) = 5" and l2: "length (idxs ! r) = 5"
    using len lrk by (simp_all add: vals idxs)
  have "distinct (take 5 (map snd rk))"
    using distinct_snd_ranked [of row] by (simp add: rk_def)
  then have d: "distinct (idxs ! r)"
    by (simp add: idxs take_map)
  have e: "\<forall>a<5. idxs ! r ! a < length row \<and> vals ! r ! a = row ! (idxs ! r ! a)"
  proof (intro allI impI)
    fix a :: nat
    assume a: "a < 5"
    then have "a < length row" using len by simp
    from ranked_entry [OF this] show "idxs ! r ! a < length row \<and> vals ! r ! a = row ! (idxs ! r ! a)"
      using a by (simp add: val_at idx_at rk_def)
  qed
  have ord: "\<forall>a b. a < b \<and> b < 5 \<longrightarrow>
          vals ! r ! b < vals ! r ! a
          \<or> (vals ! r ! a = vals ! r ! b \<and> idxs ! r ! a < idxs ! r ! b)"
  proof (intro allI impI)
    fix a b :: nat
    assume ab: "a < b \<and> b < 5"
    then have "b < length row" using len by simp
    from ranked_order [of a b row, OF _ this] ab
    show "vals ! r ! b < vals ! r ! a
          \<or> (vals ! r ! a = vals ! r ! b \<and> idxs ! r ! a < idxs ! r ! b)"
      by (simp add: val_at idx_at rk_def)
  qed
  have rest: "\<forall>j<length row. j \<notin> set (idxs ! r) \<longrightarrow>
          (\<forall>a<5. row ! j < vals ! r ! a \<or> (row ! j = vals ! r ! a \<and> idxs ! r ! a < j))"
  proof (intro allI impI)
    fix j a :: nat
    assume j: "j < length row" and out: "j \<notin> set (idxs ! r)" and a: "a < 5"
    obtain p where p: "p < length row" "rk ! p = (row ! j, j)"
      using ranked_position [OF j] by (auto simp: rk_def)
    have "\<not> p < 5"
    proof
      assume "p < 5"
      then have "idxs ! r ! p = j" using p by (simp add: idx_at)
      then have "j \<in> set (idxs ! r)"
        using \<open>p < 5\<close> l2 by (metis nth_mem)
      then show False using out by simp
    qed
    then have "a < p" using a by simp
    from ranked_order [OF this p(1)] p(2) a
    show "row ! j < vals ! r ! a \<or> (row ! j = vals ! r ! a \<and> idxs ! r ! a < j)"
      by (auto simp: val_at idx_at rk_def)
  qed
  show ?thesis
    using l1 l2 d e ord rest unfolding row_def by blast
qed

lemma ranked_example: "ranked [1, 3, 3, 0, 2, 5, 0] = [(5, 5), (3, 1), (3, 2), (2, 4), (1, 0), (0, 3), (0, 6)]"
  by (simp add: ranked_def upt_conv_Cons)

lemma example_top_k:
  "top_k [[1, 3, 3, 0, 2, 5, 0]] TOP_K = Inr ([[5, 3, 3, 2, 1]], [[5, 1, 2, 4, 0]])"
  by (simp add: top_k_def top_k_row_def ranked_example TOP_K_def)

theorem top_k_largest_lowest_index_first_witness:
  "top_k [[1, 3, 3, 0, 2, 5, 0]] TOP_K = Inr ([[5, 3, 3, 2, 1]], [[5, 1, 2, 4, 0]])
   \<and> (0 :: nat) < length [[1, 3, 3, 0, 2, 5, 0 :: real]]
   \<and> length ([[5, 3, 3, 2, 1 :: real]] ! 0) = 5 \<and> length ([[5, 1, 2, 4, 0 :: nat]] ! 0) = 5
   \<and> distinct ([[5, 1, 2, 4, 0 :: nat]] ! 0)
   \<and> ([[5, 3, 3, 2, 1 :: real]] ! 0 ! 2 < [[5, 3, 3, 2, 1]] ! 0 ! 1
        \<or> ([[5, 3, 3, 2, 1 :: real]] ! 0 ! 1 = [[5, 3, 3, 2, 1]] ! 0 ! 2
            \<and> [[5, 1, 2, 4, 0 :: nat]] ! 0 ! 1 < [[5, 1, 2, 4, 0]] ! 0 ! 2))
   \<and> ([[1, 3, 3, 0, 2, 5, 0 :: real]] ! 0 ! 6 < [[5, 3, 3, 2, 1]] ! 0 ! 4
        \<or> ([[1, 3, 3, 0, 2, 5, 0 :: real]] ! 0 ! 6 = [[5, 3, 3, 2, 1]] ! 0 ! 4
            \<and> [[5, 1, 2, 4, 0 :: nat]] ! 0 ! 4 < 6))"
proof -
  have h2: "(0 :: nat) < length [[1, 3, 3, 0, 2, 5, 0 :: real]]" by simp
  note c = top_k_largest_lowest_index_first [OF example_top_k h2]
  note l1 = c [THEN conjunct1]
  note l2 = c [THEN conjunct2, THEN conjunct1]
  note d = c [THEN conjunct2, THEN conjunct2, THEN conjunct1]
  note ord = c [THEN conjunct2, THEN conjunct2, THEN conjunct2, THEN conjunct2, THEN conjunct1]
  note rest = c [THEN conjunct2, THEN conjunct2, THEN conjunct2, THEN conjunct2, THEN conjunct2]
  have tie: "[[5, 3, 3, 2, 1 :: real]] ! 0 ! 2 < [[5, 3, 3, 2, 1]] ! 0 ! 1
        \<or> ([[5, 3, 3, 2, 1 :: real]] ! 0 ! 1 = [[5, 3, 3, 2, 1]] ! 0 ! 2
            \<and> [[5, 1, 2, 4, 0 :: nat]] ! 0 ! 1 < [[5, 1, 2, 4, 0]] ! 0 ! 2)"
    by (rule ord [rule_format, of 1 2]) simp
  have out: "[[1, 3, 3, 0, 2, 5, 0 :: real]] ! 0 ! 6 < [[5, 3, 3, 2, 1]] ! 0 ! 4
        \<or> ([[1, 3, 3, 0, 2, 5, 0 :: real]] ! 0 ! 6 = [[5, 3, 3, 2, 1]] ! 0 ! 4
            \<and> [[5, 1, 2, 4, 0 :: nat]] ! 0 ! 4 < 6)"
    by (rule rest [rule_format, of 6 4]) simp_all
  show ?thesis
    by (intro conjI example_top_k h2 l1 l2 d tie out)
qed

section \<open>The sample inputs meet the hypotheses\<close>

lemma example_valid_batch: "valid_batch example_decode_jpeg [[1], [200]]"
  by (simp add: valid_batch_def valid_jpeg_def example_decode_jpeg_def
      DEFAULT_IMAGE_SIZE_def NUM_CHANNELS_def)

lemma example_nonempty: "[[1], [200 :: 8 word]] \<noteq> []"
  by simp

lemma example_nonempty3: "[[1], [200], [3 :: 8 word]] \<noteq> []"
  by simp

lemma example_resnet_contract: "resnet_contract example_resnet"
  by (simp add: resnet_contract_def example_resnet_def unstack_def split: list.split)

lemma example_scores_per_image: "scores_per_image example_resnet example_score"
  by (simp add: scores_per_image_def example_resnet_def example_score_def)

lemma example_valid_batch3: "valid_batch example_decode_jpeg [[1], [200], [3]]"
  by (simp add: valid_batch_def valid_jpeg_def example_decode_jpeg_def
      DEFAULT_IMAGE_SIZE_def NUM_CHANNELS_def)

lemma example_perm: "mset [2, 0, 1] = mset [0..<length [[1], [200], [3 :: 8 word]]]"
  by (simp add: upt_conv_Cons)

section \<open>The response to a valid request\<close>

lemma softmax_row_pos: "x \<in> set (softmax_row xs) \<Longrightarrow> 0 < x"
proof -
  assume "x \<in> set (softmax_row xs)"
  then obtain y where y: "y \<in> set xs" and x: "x = exp y / sum_list (map exp xs)"
    by (auto simp: softmax_row_def)
  then have "xs \<noteq> []" by auto
  then have "0 < sum_list (map exp xs)" by (rule sum_list_exp_pos)
  then show "0 < x" by (simp add: x)
qed

lemma sum_list_pos_nonempty:
  fixes ys :: "real list"
  assumes "ys \<noteq> []" and "\<And>y. y \<in> set ys \<Longrightarrow> 0 < y"
  shows "0 < sum_list ys"
  using assms
proof (induction ys)
  case Nil
  then show ?case by simp
next
  case (Cons a ys)
  have "0 \<le> sum_list ys"
    using Cons.prems(2) by (intro sum_list_nonneg) (auto intro: less_imp_le)
  moreover have "0 < a" using Cons.prems(2) by simp
  ultimately have "0 < a + sum_list ys"
    by (rule add_pos_nonneg [rotated])
  then show ?case by simp
qed

lemma sum_take_less:
  fixes ys :: "real list"
  assumes "k < length ys" and "\<And>y. y \<in> set ys \<Longrightarrow> 0 < y"
  shows "sum_list (take k ys) < sum_list ys"
proof -
  have "drop k ys \<noteq> []" using assms(1) by simp
  moreover have "\<And>y. y \<in> set (drop k ys) \<Longrightarrow> 0 < y"
    using assms(2) by (auto dest: in_set_dropD)
  ultimately have "0 < sum_list (drop k ys)"
    by (rule sum_list_pos_nonempty)
  moreover have "sum_list ys = sum_list (take k ys) + sum_list (drop k ys)"
    by (metis append_take_drop_id sum_list_append)
  ultimately show ?thesis by simp
qed

lemma full_softmax_top_k_sum:
  assumes "k < length row"
  shows "sum_list (map fst (top_k_row (softmax_row row) k)) < 1"
proof -
  let ?zs = "softmax_row row"
  have ne: "row \<noteq> []" using assms by auto
  have "mset (rev (sort ?zs)) = mset ?zs" by simp
  then have "sum_list (rev (sort ?zs)) = sum_list ?zs"
    by (metis sum_mset_sum_list)
  then have one: "sum_list (rev (sort ?zs)) = 1"
    using sum_softmax_row [OF ne] by simp
  have pos: "\<And>y. y \<in> set (rev (sort ?zs)) \<Longrightarrow> 0 < y"
    using softmax_row_pos [of _ row] by simp
  have "k < length (rev (sort ?zs))"
    using assms by (simp add: length_softmax_row)
  then have "sum_list (take k (rev (sort ?zs))) < sum_list (rev (sort ?zs))"
    using pos by (rule sum_take_less)
  then have "sum_list (take k (rev (sort ?zs))) < 1"
    unfolding one .
  then show ?thesis
    by (simp only: top_k_row_values)
qed

lemma serve_predict_contract:
  assumes "valid_batch dec imgs" and "imgs \<noteq> []" and "resnet_contract net"
  shows "serve_predict dec net imgs =
           Inr (map (\<lambda>row. map snd (top_k_row row TOP_K))
                  (net RESNET_SIZE LABEL_CLASSES ''channels_last'' (image_batch dec imgs) False),
                map (\<lambda>row. softmax_row (map fst (top_k_row row TOP_K)))
                  (net RESNET_SIZE LABEL_CLASSES ''channels_last'' (image_batch dec imgs) False))"
  using assms(1, 2) resnet_contract_rows(3) [OF assms(3)] by (rule serve_predict_valid)

lemma length_top_k_row: "k \<le> length row \<Longrightarrow> length (top_k_row row k) = k"
  by (simp add: top_k_row_def length_ranked)

text \<open>
  C1. For a valid request the returned probabilities of every image are the softmax of its
  five largest raw scores alone: there are five of them and they sum to 1. They are not the
  five largest values of the softmax of the whole row of 1001 scores, whose sum is below 1.
\<close>

theorem probabilities_softmax_of_top_k:
  assumes "valid_batch decode_jpeg imgs" and "imgs \<noteq> []" and "resnet_contract net"
  shows "\<exists>cs ps. serve_predict decode_jpeg net imgs = Inr (cs, ps)
     \<and> length ps = length imgs
     \<and> (\<forall>i<length imgs.
           ps ! i = softmax_row (take 5 (rev (sort
               (net RESNET_SIZE LABEL_CLASSES ''channels_last'' (image_batch decode_jpeg imgs) False ! i))))
           \<and> length (ps ! i) = 5
           \<and> sum_list (ps ! i) = 1
           \<and> ps ! i \<noteq> map fst (top_k_row (softmax_row
               (net RESNET_SIZE LABEL_CLASSES ''channels_last'' (image_batch decode_jpeg imgs) False ! i))
               TOP_K))"
proof -
  define logits where
    "logits = net RESNET_SIZE LABEL_CLASSES ''channels_last'' (image_batch decode_jpeg imgs) False"
  define cs where "cs = map (\<lambda>row. map snd (top_k_row row TOP_K)) logits"
  define ps where "ps = map (\<lambda>row. softmax_row (map fst (top_k_row row TOP_K))) logits"
  have run: "serve_predict decode_jpeg net imgs = Inr (cs, ps)"
    unfolding cs_def ps_def logits_def using assms by (rule serve_predict_contract)
  have n: "length logits = length imgs"
    unfolding logits_def using assms(3) by (rule resnet_contract_rows(1))
  have rows: "list_all (\<lambda>r. length r = 1001) logits"
    unfolding logits_def using assms(3) by (rule resnet_contract_rows(2))
  have each: "ps ! i = softmax_row (take 5 (rev (sort (logits ! i))))
      \<and> length (ps ! i) = 5 \<and> sum_list (ps ! i) = 1
      \<and> ps ! i \<noteq> map fst (top_k_row (softmax_row (logits ! i)) TOP_K)" if "i < length imgs" for i
  proof -
    have i: "i < length logits" using that n by simp
    have l: "length (logits ! i) = 1001"
      using rows i by (simp add: list_all_length)
    have p: "ps ! i = softmax_row (take 5 (rev (sort (logits ! i))))"
      using i by (simp add: ps_def top_k_row_values TOP_K_def)
    have len: "length (take 5 (rev (sort (logits ! i)))) = 5"
      using l by simp
    then have "take 5 (rev (sort (logits ! i))) \<noteq> []"
      by (metis length_0_conv zero_neq_numeral)
    then have one: "sum_list (ps ! i) = 1"
      unfolding p by (rule sum_softmax_row)
    have "TOP_K < length (logits ! i)"
      using l by (simp add: TOP_K_def)
    then have "sum_list (map fst (top_k_row (softmax_row (logits ! i)) TOP_K)) < 1"
      by (rule full_softmax_top_k_sum)
    then have "ps ! i \<noteq> map fst (top_k_row (softmax_row (logits ! i)) TOP_K)"
      using one by auto
    then show ?thesis
      using p len one by (simp add: length_softmax_row)
  qed
  have lp: "length ps = length imgs"
    using n by (simp add: ps_def)
  have "serve_predict decode_jpeg net imgs = Inr (cs, ps) \<and> length ps = length imgs
     \<and> (\<forall>i<length imgs. ps ! i = softmax_row (take 5 (rev (sort (logits ! i))))
           \<and> length (ps ! i) = 5 \<and> sum_list (ps ! i) = 1
           \<and> ps ! i \<noteq> map fst (top_k_row (softmax_row (logits ! i)) TOP_K))"
    using run lp each by blast
  then show ?thesis
    unfolding logits_def by blast
qed

theorem probabilities_softmax_of_top_k_witness:
  "valid_batch example_decode_jpeg [[1], [200]] \<and> [[1], [200 :: 8 word]] \<noteq> []
   \<and> resnet_contract example_resnet
   \<and> (\<exists>cs ps. serve_predict example_decode_jpeg example_resnet [[1], [200]] = Inr (cs, ps)
     \<and> length ps = length [[1], [200 :: 8 word]]
     \<and> (\<forall>i<length [[1], [200 :: 8 word]].
           ps ! i = softmax_row (take 5 (rev (sort
               (example_resnet RESNET_SIZE LABEL_CLASSES ''channels_last''
                  (image_batch example_decode_jpeg [[1], [200]]) False ! i))))
           \<and> length (ps ! i) = 5
           \<and> sum_list (ps ! i) = 1
           \<and> ps ! i \<noteq> map fst (top_k_row (softmax_row
               (example_resnet RESNET_SIZE LABEL_CLASSES ''channels_last''
                  (image_batch example_decode_jpeg [[1], [200]]) False ! i))
               TOP_K)))"
  using probabilities_softmax_of_top_k
      [OF example_valid_batch example_nonempty example_resnet_contract]
    example_valid_batch example_nonempty example_resnet_contract
  by blast

lemma serve_predict_empty: "serve_predict decode_jpeg net [] = Inl UnimplementedError"
  by (simp add: serve_predict_def resnet_model_fn_empty)

text \<open>
  C2, as amended. For a valid request of \<open>N\<close> images with \<open>N\<close> at least 1 the
  response holds \<open>N\<close> lists of classes and \<open>N\<close> lists of probabilities, each of
  length 5. The empty request has no response: the call fails with
  \<open>UnimplementedError\<close>.
\<close>

theorem response_lengths:
  assumes "valid_batch decode_jpeg imgs" and "imgs \<noteq> []" and "resnet_contract net"
  shows "(\<exists>cs ps. serve_predict decode_jpeg net imgs = Inr (cs, ps)
     \<and> length cs = length imgs \<and> length ps = length imgs
     \<and> (\<forall>c \<in> set cs. length c = 5) \<and> (\<forall>p \<in> set ps. length p = 5))
     \<and> serve_predict decode_jpeg net [] = Inl UnimplementedError"
proof -
  define logits where
    "logits = net RESNET_SIZE LABEL_CLASSES ''channels_last'' (image_batch decode_jpeg imgs) False"
  define cs where "cs = map (\<lambda>row. map snd (top_k_row row TOP_K)) logits"
  define ps where "ps = map (\<lambda>row. softmax_row (map fst (top_k_row row TOP_K))) logits"
  have run: "serve_predict decode_jpeg net imgs = Inr (cs, ps)"
    unfolding cs_def ps_def logits_def using assms by (rule serve_predict_contract)
  have n: "length logits = length imgs"
    unfolding logits_def using assms(3) by (rule resnet_contract_rows(1))
  have "list_all (\<lambda>r. TOP_K \<le> length r) logits"
    unfolding logits_def using assms(3) by (rule resnet_contract_rows(3))
  then have five: "length (top_k_row row TOP_K) = 5" if "row \<in> set logits" for row
    using that length_top_k_row [of TOP_K row] by (simp add: list_all_iff TOP_K_def)
  have c: "\<forall>c \<in> set cs. length c = 5"
    using five by (auto simp: cs_def)
  have p: "\<forall>p \<in> set ps. length p = 5"
    using five by (auto simp: ps_def length_softmax_row)
  have "\<exists>cs ps. serve_predict decode_jpeg net imgs = Inr (cs, ps)
     \<and> length cs = length imgs \<and> length ps = length imgs
     \<and> (\<forall>c \<in> set cs. length c = 5) \<and> (\<forall>p \<in> set ps. length p = 5)"
    using run n c p by (intro exI [of _ cs] exI [of _ ps]) (simp add: cs_def ps_def)
  then show ?thesis
    using serve_predict_empty [of decode_jpeg net] by (rule conjI)
qed

theorem response_lengths_witness:
  "valid_batch example_decode_jpeg [[1], [200]] \<and> [[1], [200 :: 8 word]] \<noteq> []
   \<and> resnet_contract example_resnet
   \<and> (\<exists>cs ps. serve_predict example_decode_jpeg example_resnet [[1], [200]] = Inr (cs, ps)
     \<and> length cs = length [[1], [200 :: 8 word]] \<and> length ps = length [[1], [200 :: 8 word]]
     \<and> (\<forall>c \<in> set cs. length c = 5) \<and> (\<forall>p \<in> set ps. length p = 5))
   \<and> serve_predict example_decode_jpeg example_resnet [] = Inl UnimplementedError"
  using response_lengths [OF example_valid_batch example_nonempty example_resnet_contract]
    example_valid_batch example_nonempty example_resnet_contract
  by blast

text \<open>
  The claim as the spec has it, with \<open>N\<close> allowed to be 0, fails on the empty request: it
  is valid, and the call returns an error instead of two empty lists.
\<close>

theorem response_lengths_empty_counterexample:
  "valid_batch example_decode_jpeg [] \<and> resnet_contract example_resnet
   \<and> serve_predict example_decode_jpeg example_resnet [] = Inl UnimplementedError
   \<and> serve_predict example_decode_jpeg example_resnet [] \<noteq> Inr ([], [])"
  using example_resnet_contract
  by (simp add: valid_batch_def serve_predict_empty)

lemma sorted_rev_take: "sorted (rev xs) \<Longrightarrow> sorted (rev (take k xs))"
  unfolding sorted_rev_iff_nth_mono by simp

text \<open>
  C4. For every image of a valid request the five returned probabilities are in non-increasing
  order and their sum is within \<open>1e-5\<close> of 1 (in exact arithmetic it is 1): the response
  holds one list of probabilities for each image, and each list has these properties.
\<close>

theorem probabilities_sorted_sum_one:
  assumes "valid_batch decode_jpeg imgs" and "imgs \<noteq> []" and "resnet_contract net"
  shows "\<exists>cs ps. serve_predict decode_jpeg net imgs = Inr (cs, ps)
     \<and> length ps = length imgs
     \<and> (\<forall>i<length imgs. length (ps ! i) = 5 \<and> sorted (rev (ps ! i))
           \<and> \<bar>sum_list (ps ! i) - 1\<bar> \<le> 1 / 100000)"
proof -
  define logits where
    "logits = net RESNET_SIZE LABEL_CLASSES ''channels_last'' (image_batch decode_jpeg imgs) False"
  define cs where "cs = map (\<lambda>row. map snd (top_k_row row TOP_K)) logits"
  define ps where "ps = map (\<lambda>row. softmax_row (map fst (top_k_row row TOP_K))) logits"
  have run: "serve_predict decode_jpeg net imgs = Inr (cs, ps)"
    unfolding cs_def ps_def logits_def using assms by (rule serve_predict_contract)
  have n: "length logits = length imgs"
    unfolding logits_def using assms(3) by (rule resnet_contract_rows(1))
  have lp: "length ps = length imgs"
    using n by (simp add: ps_def)
  have rows: "list_all (\<lambda>r. length r = 1001) logits"
    unfolding logits_def using assms(3) by (rule resnet_contract_rows(2))
  have each: "length (ps ! i) = 5 \<and> sorted (rev (ps ! i)) \<and> \<bar>sum_list (ps ! i) - 1\<bar> \<le> 1 / 100000"
    if i: "i < length imgs" for i
  proof -
    define row where "row = logits ! i"
    have il: "i < length logits" using i n by simp
    then have p: "ps ! i = softmax_row (take 5 (rev (sort row)))"
      by (simp add: ps_def row_def top_k_row_values TOP_K_def)
    have "length row = 1001"
      using rows il by (simp add: list_all_length row_def)
    then have len: "length (take 5 (rev (sort row))) = 5" by simp
    then have "take 5 (rev (sort row)) \<noteq> []"
      by (metis length_0_conv zero_neq_numeral)
    then have s: "sum_list (ps ! i) = 1"
      unfolding p by (rule sum_softmax_row)
    have "sorted (rev (rev (sort row)))" by simp
    then have "sorted (rev (take 5 (rev (sort row))))"
      by (rule sorted_rev_take)
    then have "sorted (rev (ps ! i))"
      unfolding p by (rule softmax_row_monotone)
    then show ?thesis
      using s len by (simp add: p length_softmax_row)
  qed
  show ?thesis
    using run lp each by blast
qed

theorem probabilities_sorted_sum_one_witness:
  "valid_batch example_decode_jpeg [[1], [200]] \<and> [[1], [200 :: 8 word]] \<noteq> []
   \<and> resnet_contract example_resnet
   \<and> (\<exists>cs ps. serve_predict example_decode_jpeg example_resnet [[1], [200]] = Inr (cs, ps)
     \<and> length ps = length [[1], [200 :: 8 word]]
     \<and> (\<forall>i<length [[1], [200 :: 8 word]]. length (ps ! i) = 5 \<and> sorted (rev (ps ! i))
           \<and> \<bar>sum_list (ps ! i) - 1\<bar> \<le> 1 / 100000))"
  using probabilities_sorted_sum_one
      [OF example_valid_batch example_nonempty example_resnet_contract]
    example_valid_batch example_nonempty example_resnet_contract
  by blast

section \<open>Malformed images\<close>

lemma preprocess_image_errors: "preprocess_image dec y = Inl e \<Longrightarrow> e = DecodeError"
  by (simp add: preprocess_image_def split: option.splits)

text \<open>
  C5. If some byte string of the request is not a JPEG the decoder accepts, the whole call
  fails with \<open>DecodeError\<close>, whatever the other images are: no prediction is returned
  for any image.
\<close>

theorem invalid_jpeg_fails_batch:
  assumes "b \<in> set imgs" and "decode_jpeg b = None"
  shows "resnet_model_fn decode_jpeg net \<lparr>images = imgs\<rparr> labels m = Inl DecodeError
     \<and> serve_predict decode_jpeg net imgs = Inl DecodeError"
proof -
  have "preprocess_image decode_jpeg b = Inl DecodeError"
    using assms(2) by (simp add: preprocess_image_def)
  with assms(1) have "map_elems (preprocess_image decode_jpeg) imgs = Inl DecodeError"
    by (rule map_elems_fails) (rule preprocess_image_errors)
  then have m: "map_fn (preprocess_image decode_jpeg) imgs = Inl DecodeError"
    by (simp add: map_fn_def)
  have model: "resnet_model_fn decode_jpeg net \<lparr>images = imgs\<rparr> labels m = Inl DecodeError"
    by (simp add: resnet_model_fn_def m)
  have "resnet_model_fn decode_jpeg net \<lparr>images = imgs\<rparr> () PREDICT = Inl DecodeError"
    by (simp add: resnet_model_fn_def m)
  then have "serve_predict decode_jpeg net imgs = Inl DecodeError"
    by (simp add: serve_predict_def)
  with model show ?thesis ..
qed

theorem invalid_jpeg_fails_batch_witness:
  "[] \<in> set [[1], [], [2 :: 8 word]] \<and> example_decode_jpeg [] = None
   \<and> resnet_model_fn example_decode_jpeg example_resnet \<lparr>images = [[1], [], [2]]\<rparr> () PREDICT
        = Inl DecodeError
   \<and> serve_predict example_decode_jpeg example_resnet [[1], [], [2]] = Inl DecodeError"
proof -
  have h1: "[] \<in> set [[1], [], [2 :: 8 word]]" by simp
  have h2: "example_decode_jpeg [] = None" by (simp add: example_decode_jpeg_def)
  show ?thesis
    using invalid_jpeg_fails_batch
      [where b = "[]" and imgs = "[[1], [], [2]]" and decode_jpeg = example_decode_jpeg
         and net = example_resnet and labels = "()" and m = PREDICT, OF h1 h2] h1 h2
    by blast
qed

section \<open>Order of the images\<close>

lemma serve_predict_per_image:
  assumes "valid_batch dec xs" and "xs \<noteq> []" and "scores_per_image net score"
  shows "serve_predict dec net xs =
           Inr (map (\<lambda>b. map snd (top_k_row (score (normalized dec b)) TOP_K)) xs,
                map (\<lambda>b. softmax_row (map fst (top_k_row (score (normalized dec b)) TOP_K))) xs)"
proof -
  have logits: "net RESNET_SIZE LABEL_CLASSES ''channels_last'' (image_batch dec xs) False
      = map score (map (normalized dec) xs)"
    using assms(3) unstack_image_batch [OF assms(1)] by (simp add: scores_per_image_def)
  have "\<And>x. TOP_K \<le> length (score x)"
    using assms(3) by (simp add: scores_per_image_def TOP_K_def LABEL_CLASSES_def)
  then have "list_all (\<lambda>r. TOP_K \<le> length r)
      (net RESNET_SIZE LABEL_CLASSES ''channels_last'' (image_batch dec xs) False)"
    by (simp add: logits list_all_iff)
  with assms(1, 2) have "serve_predict dec net xs =
           Inr (map (\<lambda>row. map snd (top_k_row row TOP_K))
                  (net RESNET_SIZE LABEL_CLASSES ''channels_last'' (image_batch dec xs) False),
                map (\<lambda>row. softmax_row (map fst (top_k_row row TOP_K)))
                  (net RESNET_SIZE LABEL_CLASSES ''channels_last'' (image_batch dec xs) False))"
    by (rule serve_predict_valid)
  then show ?thesis
    by (simp add: logits comp_def)
qed

text \<open>
  C8. With a network that scores each image of the batch on its own, permuting the images of a
  valid request permutes the predictions in the same way, and the prediction at position
  \<open>i\<close> is the one the pipeline returns for the \<open>i\<close>-th image alone.
\<close>

theorem pipeline_permutation_equivariant:
  assumes "valid_batch decode_jpeg imgs" and "imgs \<noteq> []" and "scores_per_image net score"
    and "mset perm = mset [0..<length imgs]"
  shows "\<exists>cs ps. serve_predict decode_jpeg net imgs = Inr (cs, ps)
     \<and> length cs = length imgs \<and> length ps = length imgs
     \<and> serve_predict decode_jpeg net (map ((!) imgs) perm)
         = Inr (map ((!) cs) perm, map ((!) ps) perm)
     \<and> (\<forall>i<length imgs. serve_predict decode_jpeg net [imgs ! i] = Inr ([cs ! i], [ps ! i]))"
proof -
  define f where "f = (\<lambda>b. map snd (top_k_row (score (normalized decode_jpeg b)) TOP_K))"
  define g where
    "g = (\<lambda>b. softmax_row (map fst (top_k_row (score (normalized decode_jpeg b)) TOP_K)))"
  have per: "serve_predict decode_jpeg net xs = Inr (map f xs, map g xs)"
    if "valid_batch decode_jpeg xs" and "xs \<noteq> []" for xs
    unfolding f_def g_def using that assms(3) by (rule serve_predict_per_image)
  have "set perm = set [0..<length imgs]"
    using assms(4) by (rule mset_eq_setD)
  then have inb: "\<And>i. i \<in> set perm \<Longrightarrow> i < length imgs"
    by simp
  have "length perm = length [0..<length imgs]"
    using assms(4) by (rule mset_eq_length)
  then have pne: "map ((!) imgs) perm \<noteq> []"
    using assms(2) by auto
  have v: "\<And>i. i < length imgs \<Longrightarrow> valid_jpeg decode_jpeg (imgs ! i)"
    using assms(1) by (simp add: valid_batch_def list_all_length)
  have vperm: "valid_batch decode_jpeg (map ((!) imgs) perm)"
    using inb v by (simp add: valid_batch_def list_all_iff)
  have vone: "valid_batch decode_jpeg [imgs ! i]" if "i < length imgs" for i
    using v [OF that] by (simp add: valid_batch_def)
  have whole: "serve_predict decode_jpeg net imgs = Inr (map f imgs, map g imgs)"
    using assms(1, 2) by (rule per)
  have "map f (map ((!) imgs) perm) = map ((!) (map f imgs)) perm"
    and "map g (map ((!) imgs) perm) = map ((!) (map g imgs)) perm"
    using inb by simp_all
  then have permuted: "serve_predict decode_jpeg net (map ((!) imgs) perm)
      = Inr (map ((!) (map f imgs)) perm, map ((!) (map g imgs)) perm)"
    using per [OF vperm pne] by simp
  have single: "\<forall>i<length imgs.
      serve_predict decode_jpeg net [imgs ! i] = Inr ([map f imgs ! i], [map g imgs ! i])"
    using per [OF vone] by simp
  show ?thesis
    using whole permuted single
    by (intro exI [of _ "map f imgs"] exI [of _ "map g imgs"]) simp
qed

theorem pipeline_permutation_equivariant_witness:
  "valid_batch example_decode_jpeg [[1], [200], [3]]
   \<and> [[1], [200], [3 :: 8 word]] \<noteq> []
   \<and> scores_per_image example_resnet example_score
   \<and> mset [2, 0, 1] = mset [0..<length [[1], [200], [3 :: 8 word]]]
   \<and> (\<exists>cs ps. serve_predict example_decode_jpeg example_resnet [[1], [200], [3]] = Inr (cs, ps)
     \<and> length cs = length [[1], [200], [3 :: 8 word]] \<and> length ps = length [[1], [200], [3 :: 8 word]]
     \<and> serve_predict example_decode_jpeg example_resnet (map ((!) [[1], [200], [3]]) [2, 0, 1])
         = Inr (map ((!) cs) [2, 0, 1], map ((!) ps) [2, 0, 1])
     \<and> (\<forall>i<length [[1], [200], [3 :: 8 word]].
           serve_predict example_decode_jpeg example_resnet [[[1], [200], [3]] ! i]
             = Inr ([cs ! i], [ps ! i])))"
  using pipeline_permutation_equivariant
    [OF example_valid_batch3 example_nonempty3 example_scores_per_image example_perm]
    example_valid_batch3 example_nonempty3 example_scores_per_image example_perm
  by blast

section \<open>The exported signatures\<close>

lemma export_signature_def_map_predict:
  "export_signature_def_map serving_input_receiver_fn
       \<lparr>mode = PREDICT, predictions = Some preds,
        export_outputs = Some [(''predict'', PredictOutput preds),
                               (''serving_default'', PredictOutput preds)]\<rparr>
     = [(''predict'',
          \<lparr>inputs = [(''images'', \<lparr>dtype = DT_STRING, dims = [None]\<rparr>)], outputs = preds\<rparr>),
        (''serving_default'',
          \<lparr>inputs = [(''images'', \<lparr>dtype = DT_STRING, dims = [None]\<rparr>)], outputs = preds\<rparr>)]"
  by (simp add: export_signature_def_map_def serving_input_receiver_fn_def
      build_raw_serving_input_receiver_fn_def predict_signature_def_def)

lemma keras_signature_def_map_predict:
  "keras_signature_def_map keras_images top_k_classes top_k_probs
     = [(''predict'',
          \<lparr>inputs = [(''images'', \<lparr>dtype = DT_STRING, dims = [None]\<rparr>)],
           outputs = [(''classes'', top_k_classes), (''probabilities'', top_k_probs)]\<rparr>)]"
  by (simp add: keras_signature_def_map_def keras_signature_def predict_signature_def_def
      keras_images_def)




section \<open>Normalisation of the Keras notebook\<close>

lemma mean_subtracted_pixels:
  "mean_subtracted (m0, m1, m2) reversed (map to_float (concat (map (\<lambda>(r, g, b). [r, g, b]) px)))
     = concat (map (\<lambda>(r, g, b).
           if reversed then [to_float b - m0, to_float g - m1, to_float r - m2]
           else [to_float r - m0, to_float g - m1, to_float b - m2]) px)"
  by (induction px) auto

lemma to_float_0: "to_float 0 = 0"
  by (simp add: to_float_def)

lemma to_float_255: "to_float 255 = 255"
  by (simp add: to_float_def)

lemma mean_subtracted_unbounded:
  "\<exists>v :: 8 word. \<exists>x \<in> set (mean_subtracted (m0, m1, m2) reversed (map to_float [v, v, v])).
      x < - (1 / 2) \<or> 1 / 2 < x"
proof (cases "m0 \<le> 1 / 2")
  case True
  then have "1 / 2 < to_float 255 - m0"
    by (simp add: to_float_255)
  then show ?thesis
    by (intro exI [of _ 255] bexI [of _ "to_float 255 - m0"]) auto
next
  case False
  then have "to_float 0 - m0 < - (1 / 2)"
    by (simp add: to_float_0)
  then show ?thesis
    by (intro exI [of _ 0] bexI [of _ "to_float 0 - m0"]) auto
qed

text \<open>
  C7. Under the mean-subtracted policy every channel value of every pixel has the mean of its
  channel subtracted, with the channels reversed or not and nothing rescaled; whatever the
  means are, some image has an output value outside \<open>[-0.5, 0.5]\<close>.
\<close>

theorem keras_preprocess_mean_subtracted:
  assumes "decode_jpeg encoded_image = Some img"
    and "elems img = concat (map (\<lambda>(r, g, b). [r, g, b]) px)"
  shows "\<exists>t. keras_preprocess_image decode_jpeg (m0, m1, m2) reversed encoded_image = Inr t
     \<and> shape t = shape img
     \<and> elems t = concat (map (\<lambda>(r, g, b).
           if reversed then [to_float b - m0, to_float g - m1, to_float r - m2]
           else [to_float r - m0, to_float g - m1, to_float b - m2]) px)
     \<and> (\<exists>v :: 8 word. \<exists>x \<in> set (elems (preprocess_input (m0, m1, m2) reversed
             \<lparr>shape = [1, 1, 3], elems = map to_float [v, v, v]\<rparr>)).
           x < - (1 / 2) \<or> 1 / 2 < x)"
proof -
  let ?t = "preprocess_input (m0, m1, m2) reversed
              \<lparr>shape = shape img, elems = map to_float (elems img)\<rparr>"
  have run: "keras_preprocess_image decode_jpeg (m0, m1, m2) reversed encoded_image = Inr ?t"
    using assms(1) by (simp add: keras_preprocess_image_def)
  have vals: "elems ?t = concat (map (\<lambda>(r, g, b).
           if reversed then [to_float b - m0, to_float g - m1, to_float r - m2]
           else [to_float r - m0, to_float g - m1, to_float b - m2]) px)"
    by (simp add: preprocess_input_def assms(2) mean_subtracted_pixels)
  have sh: "shape ?t = shape img"
    by (simp add: preprocess_input_def)
  have out: "\<exists>v :: 8 word. \<exists>x \<in> set (elems (preprocess_input (m0, m1, m2) reversed
             \<lparr>shape = [1, 1, 3], elems = map to_float [v, v, v]\<rparr>)).
           x < - (1 / 2) \<or> 1 / 2 < x"
    using mean_subtracted_unbounded [of m0 m1 m2 reversed]
    by (simp only: preprocess_input_def tensor.simps)
  show ?thesis
    using run sh vals out by blast
qed

lemma concat_uniform_pixels: "concat (replicate n [v, v, v]) = replicate (3 * n) v"
  by (induction n) (simp_all add: numeral_3_eq_3)

theorem keras_preprocess_mean_subtracted_witness:
  "example_decode_jpeg [7] = Some \<lparr>shape = [224, 224, 3], elems = replicate 150528 7\<rparr>
   \<and> elems \<lparr>shape = [224, 224, 3], elems = replicate 150528 (7 :: 8 word)\<rparr>
      = concat (map (\<lambda>(r, g, b). [r, g, b]) (replicate 50176 (7, 7, 7)))
   \<and> (\<exists>t. keras_preprocess_image example_decode_jpeg (103.939, 116.779, 123.68) True [7] = Inr t
     \<and> shape t = shape \<lparr>shape = [224, 224, 3], elems = replicate 150528 (7 :: 8 word)\<rparr>
     \<and> elems t = concat (map (\<lambda>(r, g, b).
           if True then [to_float b - 103.939, to_float g - 116.779, to_float r - 123.68]
           else [to_float r - 103.939, to_float g - 116.779, to_float b - 123.68])
           (replicate 50176 (7, 7, 7)))
     \<and> (\<exists>v :: 8 word. \<exists>x \<in> set (elems (preprocess_input (103.939, 116.779, 123.68) True
             \<lparr>shape = [1, 1, 3], elems = map to_float [v, v, v]\<rparr>)).
           x < - (1 / 2) \<or> 1 / 2 < x))"
proof -
  have h1: "example_decode_jpeg [7] = Some \<lparr>shape = [224, 224, 3], elems = replicate 150528 7\<rparr>"
    by (simp add: example_decode_jpeg_def)
  have h2: "elems \<lparr>shape = [224, 224, 3], elems = replicate 150528 (7 :: 8 word)\<rparr>
      = concat (map (\<lambda>(r, g, b). [r, g, b]) (replicate 50176 (7, 7, 7)))"
    by (simp add: concat_uniform_pixels)
  note c = keras_preprocess_mean_subtracted
    [where decode_jpeg = example_decode_jpeg and encoded_image = "[7]"
       and img = "\<lparr>shape = [224, 224, 3], elems = replicate 150528 7\<rparr>"
       and px = "replicate 50176 (7, 7, 7)"
       and ?m0.0 = "103.939" and ?m1.0 = "116.779" and ?m2.0 = "123.68" and reversed = True,
     OF h1 h2]
  show ?thesis
    using h1 h2 c by blast
qed

section \<open>Saving to an existing version\<close>

lemma keras_SERVING_DIR_1: "keras_SERVING_DIR VERSION_NUMBER = ''keras_resnet_servable/1''"
  by (simp add: keras_SERVING_DIR_def VERSION_NUMBER_def str.simps [of "Suc 0"] digit_def)

lemma export_new_version_saves:
  assumes "fs (keras_SERVING_DIR version_number) = None"
  shows "export_keras_servable version_number imgs top_k_classes top_k_probs fs
           = (Inr (), fs(keras_SERVING_DIR version_number \<mapsto>
                [([''serve''], keras_signature_def_map imgs top_k_classes top_k_probs)]))"
  using assms
  by (simp add: export_keras_servable_def SavedModelBuilder_def add_meta_graph_and_variables_def
      save_def keras_signature_def_map_def Let_def)

text \<open>
  C10. Saving the servable for a version number whose directory already exists fails with
  \<open>ConfigurationError\<close> and leaves the file system, and so the existing directory, as
  it was.
\<close>

theorem export_existing_version_fails:
  assumes "fs (keras_SERVING_DIR version_number) = Some existing"
  shows "export_keras_servable version_number imgs top_k_classes top_k_probs fs
           = (Inl ConfigurationError, fs)
     \<and> snd (export_keras_servable version_number imgs top_k_classes top_k_probs fs)
           (keras_SERVING_DIR version_number) = Some existing"
  using assms by (simp add: export_keras_servable_def SavedModelBuilder_def)

theorem export_existing_version_fails_witness:
  "[''keras_resnet_servable/1'' \<mapsto> []] (keras_SERVING_DIR VERSION_NUMBER) = Some []
   \<and> export_keras_servable VERSION_NUMBER ''images'' ''top_k_classes'' ''top_k_probs''
        [''keras_resnet_servable/1'' \<mapsto> []]
      = (Inl ConfigurationError, [''keras_resnet_servable/1'' \<mapsto> []])"
proof -
  have h: "[''keras_resnet_servable/1'' \<mapsto> []] (keras_SERVING_DIR VERSION_NUMBER) = Some []"
    by (simp add: keras_SERVING_DIR_1)
  show ?thesis
    using export_existing_version_fails
      [where fs = "[''keras_resnet_servable/1'' \<mapsto> []]" and version_number = VERSION_NUMBER
         and existing = "[]" and imgs = "''images''" and top_k_classes = "''top_k_classes''"
         and top_k_probs = "''top_k_probs''", OF h] h
    by simp
qed

end
